theory Spec2Isabelle
  imports Main
begin

section \<open>Values of the JavaScript runtime\<close>

text \<open>
  A JavaScript string is a sequence of code units; it is modelled as a \<open>string\<close>
  (the code units below 256). \<open>xs[i]\<close> on an array or string is \<open>undefined\<close> out of
  range, which \<open>at\<close> renders as \<open>None\<close>.
\<close>

definition at :: "'a list \<Rightarrow> nat \<Rightarrow> 'a option" where
  "at xs i = (if i < length xs then Some (xs ! i) else None)"

text \<open>
  The errors a handler can raise: \<open>throw new Error(message)\<close>, the \<open>SyntaxError\<close> that
  \<open>new RegExp(pattern)\<close> raises for a pattern that is no regular expression, and the
  error of \<open>getCurrentUserOrThrow\<close> (imported from \<open>./users\<close>).
\<close>

datatype error = Error string | SyntaxError char | CurrentUserError

datatype feedback = Correct | Present | Absent

subsection \<open>\<open>solution.match(new RegExp(letter, "g"))\<close> for a one-character pattern\<close>

text \<open>
  The pattern is the guessed character itself, unescaped. As a pattern of one character,
  \<open>* + ? ( ) [ \\<close> are no regular expression (the constructor throws); \<open>.\<close> matches
  every character but a line terminator; \<open>^\<close> and \<open>$\<close> match the empty string once
  (at the start, at the end); \<open>|\<close> matches the empty string at every index, the end
  included; every other character matches itself.
\<close>

definition regexp_invalid :: "char \<Rightarrow> bool" where
  "regexp_invalid c \<longleftrightarrow>
     c \<in> set [CHR ''*'', CHR ''+'', CHR ''?'', CHR ''('', CHR '')'', CHR ''['', CHR 0x5C]"

definition line_terminator :: "char \<Rightarrow> bool" where
  "line_terminator c \<longleftrightarrow> c = CHR 0x0A \<or> c = CHR 0x0D"

definition match_length :: "char \<Rightarrow> string \<Rightarrow> error + nat" where
  "match_length letter solution =
     (if regexp_invalid letter then Inl (SyntaxError letter)
      else if letter = CHR ''.'' then Inr (length (filter (\<lambda>c. \<not> line_terminator c) solution))
      else if letter = CHR ''^'' \<or> letter = CHR ''$'' then Inr 1
      else if letter = CHR ''|'' then Inr (length solution + 1)
      else Inr (count_list solution letter))"

section \<open>The feedback calculation of \<open>checkGuess\<close>\<close>

text \<open>
  \<open>feedback\<close> starts as the empty array and is written by index; an index not yet
  written reads as \<open>undefined\<close>. The model keeps the five slots as options.
  \<open>guessLetters\<close> has five entries when the calculation starts (the length check
  comes first); \<open>solutionLetters\<close> has whatever length the stored solution has.
\<close>

fun firstPass :: "nat list \<Rightarrow> string \<Rightarrow> string \<Rightarrow> feedback option list \<Rightarrow> feedback option list" where
  "firstPass [] guessLetters solutionLetters fb = fb"
| "firstPass (i # is) guessLetters solutionLetters fb =
     firstPass is guessLetters solutionLetters
       (if at guessLetters i = at solutionLetters i then fb[i := Some Correct] else fb)"

definition correctCount :: "string \<Rightarrow> string \<Rightarrow> char \<Rightarrow> nat" where
  "correctCount solutionLetters guessLetters letter =
     sum_list (map (\<lambda>idx. if solutionLetters ! idx = letter \<and> at guessLetters idx = Some letter
                          then 1 else 0)
                   [0..<length solutionLetters])"

definition alreadyMarkedPresent :: "string \<Rightarrow> feedback option list \<Rightarrow> nat \<Rightarrow> char \<Rightarrow> nat" where
  "alreadyMarkedPresent guessLetters fb i letter =
     length (filter (\<lambda>idx. guessLetters ! idx = letter \<and> at fb idx = Some (Some Present))
                    [0..<min i (length guessLetters)])"

fun secondPass :: "nat list \<Rightarrow> string \<Rightarrow> string \<Rightarrow> feedback option list
                   \<Rightarrow> error + feedback option list" where
  "secondPass [] guessLetters solution fb = Inr fb"
| "secondPass (i # is) guessLetters solution fb =
     (if at fb i = Some (Some Correct) then secondPass is guessLetters solution fb
      else
        let letter = guessLetters ! i in
        case match_length letter solution of
          Inl e \<Rightarrow> Inl e
        | Inr solutionCount \<Rightarrow>
            secondPass is guessLetters solution
              (fb[i := Some (if letter \<in> set solution \<and>
                                correctCount solution guessLetters letter
                                  + alreadyMarkedPresent guessLetters fb i letter < solutionCount
                             then Present else Absent)]))"

text \<open>
  Both loops run \<open>i\<close> from 0 to 4. After them every slot is written, so the array is a
  list of five feedback values; \<open>those\<close> reads it (by lemma \<open>calculateFeedback_Inr\<close>
  below the result has five values, so the \<open>None\<close> case never arises).
\<close>

definition calculateFeedback :: "string \<Rightarrow> string \<Rightarrow> error + feedback list" where
  "calculateFeedback guess solution =
     (case secondPass [0..<5] guess solution (firstPass [0..<5] guess solution (replicate 5 None)) of
        Inl e \<Rightarrow> Inl e
      | Inr fb \<Rightarrow> (case those fb of Some f \<Rightarrow> Inr f | None \<Rightarrow> Inr []))"

section \<open>The tables and the request environment\<close>

text \<open>
  A table is the list of its rows in insertion order; \<open>.first()\<close> on an index query is the
  first row that matches (\<open>find\<close>). Two records with a field of the same name cannot
  share it, so the fields of a \<open>wordles\<close> row and of the fetched JSON carry a prefix.
\<close>

record puzzleData =
  pd_solution :: string
  pd_id :: int
  print_date :: string
  days_since_launch :: int

record wordle =
  w_date :: string
  solution :: string
  puzzleId :: int
  printDate :: string
  daysSinceLaunch :: int

record 'f guess =
  word :: string
  feedback :: "'f list"

record gameState =
  userId :: string
  date :: string
  guesses :: "feedback guess list"
  isGameOver :: bool

record db =
  wordles :: "wordle list"
  wordleGameStates :: "gameState list"

text \<open>
  What a handler gets from outside the file: \<open>identity\<close> is the \<open>subject\<close> of
  \<open>ctx.auth.getUserIdentity()\<close> (\<open>None\<close> for \<open>null\<close>); \<open>currentUser\<close> is the \<open>_id\<close> of the
  record that \<open>getCurrentUserOrThrow(ctx)\<close> returns (\<open>None\<close> when it throws): that function
  lives in \<open>./users\<close>, so its result is a parameter here. By the schema a \<open>users\<close> row
  keeps the identity's subject in its field \<open>externalId\<close>, and \<open>_id\<close> is the row's own
  document id. \<open>fetch\<close> is the puzzle source, by date: the status text of a response that
  is not ok, or the JSON. \<open>toLowerCase\<close> and \<open>toUpperCase\<close> are the runtime's case
  mappings; every result below holds for any two functions in their place.
\<close>

record env =
  identity :: "string option"
  currentUser :: "string option"
  fetch :: "string \<Rightarrow> string + puzzleData"
  toLowerCase :: "string \<Rightarrow> string"
  toUpperCase :: "string \<Rightarrow> string"

record checkGuessResult =
  res_feedback :: "feedback list"
  res_isCorrect :: bool
  res_isGameOver :: bool

definition getPuzzleFromDb :: "db \<Rightarrow> string \<Rightarrow> wordle option" where
  "getPuzzleFromDb d dt = find (\<lambda>p. w_date p = dt) (wordles d)"

definition storePuzzle :: "db \<Rightarrow> string \<Rightarrow> string \<Rightarrow> int \<Rightarrow> string \<Rightarrow> int \<Rightarrow> db" where
  "storePuzzle d dt sol pid pdate days =
     (case find (\<lambda>p. w_date p = dt) (wordles d) of
        Some existing \<Rightarrow> d
      | None \<Rightarrow> d\<lparr>wordles := wordles d @
                 [\<lparr>w_date = dt, solution = sol, puzzleId = pid, printDate = pdate,
                   daysSinceLaunch = days\<rparr>]\<rparr>)"

definition getGameStateInternal :: "db \<Rightarrow> string \<Rightarrow> string \<Rightarrow> gameState option" where
  "getGameStateInternal d uid dt =
     find (\<lambda>r. userId r = uid \<and> date r = dt) (wordleGameStates d)"

text \<open>
  \<open>ctx.db.patch(existing._id, fields)\<close> changes the one row that \<open>.first()\<close> returned.
\<close>

fun patch :: "('a \<Rightarrow> bool) \<Rightarrow> ('a \<Rightarrow> 'a) \<Rightarrow> 'a list \<Rightarrow> 'a list" where
  "patch P f [] = []"
| "patch P f (r # rows) = (if P r then f r # rows else r # patch P f rows)"

definition saveGameStateInternal ::
    "env \<Rightarrow> db \<Rightarrow> string \<Rightarrow> feedback guess list \<Rightarrow> bool \<Rightarrow> error + db" where
  "saveGameStateInternal e d dt gs over =
     (case currentUser e of
        None \<Rightarrow> Inl CurrentUserError
      | Some uid \<Rightarrow>
          (case find (\<lambda>r. userId r = uid \<and> date r = dt) (wordleGameStates d) of
             Some existing \<Rightarrow>
               Inr (d\<lparr>wordleGameStates :=
                        patch (\<lambda>r. userId r = uid \<and> date r = dt)
                              (\<lambda>r. r\<lparr>guesses := gs, isGameOver := over\<rparr>)
                              (wordleGameStates d)\<rparr>)
           | None \<Rightarrow>
               Inr (d\<lparr>wordleGameStates := wordleGameStates d @
                        [\<lparr>userId = uid, date = dt, guesses = gs, isGameOver = over\<rparr>]\<rparr>)))"

text \<open>
  \<open>getGameState\<close>, the query the client reads its saved game with: the row of the current
  user's \<open>_id\<close> and the date, with the puzzle's \<open>daysSinceLaunch\<close>. Of the row's fields the
  view keeps the two that a game consists of.
\<close>

record gameStateView =
  v_guesses :: "feedback guess list"
  v_isGameOver :: bool
  v_daysSinceLaunch :: "int option"

definition getGameState :: "env \<Rightarrow> db \<Rightarrow> string \<Rightarrow> error + gameStateView option" where
  "getGameState e d dt =
     (case currentUser e of
        None \<Rightarrow> Inl CurrentUserError
      | Some uid \<Rightarrow>
          let puzzle = find (\<lambda>p. w_date p = dt) (wordles d) in
          (case find (\<lambda>r. userId r = uid \<and> date r = dt) (wordleGameStates d) of
             None \<Rightarrow>
               Inr (case puzzle of
                      Some p \<Rightarrow> Some \<lparr>v_guesses = [], v_isGameOver = False,
                                       v_daysSinceLaunch = Some (daysSinceLaunch p)\<rparr>
                    | None \<Rightarrow> None)
           | Some st \<Rightarrow>
               Inr (Some \<lparr>v_guesses = guesses st, v_isGameOver = isGameOver st,
                          v_daysSinceLaunch = map_option daysSinceLaunch puzzle\<rparr>)))"

section \<open>\<open>checkGuess\<close>\<close>

text \<open>
  The puzzle of the date: the stored row, or on a miss the fetched JSON, which is stored
  before the handler goes on. The result is the table after that and the solution.
\<close>

definition loadPuzzle :: "env \<Rightarrow> db \<Rightarrow> string \<Rightarrow> error + db \<times> string" where
  "loadPuzzle e d dt =
     (case getPuzzleFromDb d dt of
        Some puzzle \<Rightarrow> Inr (d, solution puzzle)
      | None \<Rightarrow>
          (case fetch e dt of
             Inl statusText \<Rightarrow> Inl (Error (''Failed to fetch puzzle: '' @ statusText))
           | Inr puzzleData \<Rightarrow>
               Inr (storePuzzle d dt (pd_solution puzzleData) (pd_id puzzleData)
                      (print_date puzzleData) (days_since_launch puzzleData),
                    pd_solution puzzleData)))"

text \<open>
  The handler returns the tables as it leaves them, and the error it threw or its result.
\<close>

definition checkGuess :: "env \<Rightarrow> db \<Rightarrow> string \<Rightarrow> string \<Rightarrow> db \<times> (error + checkGuessResult)" where
  "checkGuess e d dt rawGuess =
     (case identity e of
        None \<Rightarrow> (d, Inl (Error ''Not authenticated''))
      | Some subject \<Rightarrow>
          (case loadPuzzle e d dt of
             Inl err \<Rightarrow> (d, Inl err)
           | Inr (d1, puzzleSolution) \<Rightarrow>
               let solution = toLowerCase e puzzleSolution;
                   guess = toLowerCase e rawGuess in
               if length guess \<noteq> 5 then (d1, Inl (Error ''Guess must be 5 letters''))
               else
                 let currentState = getGameStateInternal d1 subject dt in
                 if (case currentState of Some st \<Rightarrow> 6 \<le> length (guesses st) | None \<Rightarrow> False)
                 then (d1, Inl (Error ''Maximum guesses reached''))
                 else if (case currentState of Some st \<Rightarrow> isGameOver st | None \<Rightarrow> False)
                 then (d1, Inl (Error ''Game is already over''))
                 else
                   (case calculateFeedback guess solution of
                      Inl err \<Rightarrow> (d1, Inl err)
                    | Inr fb \<Rightarrow>
                        let isCorrect = (guess = solution);
                            existingGuesses =
                              (case currentState of Some st \<Rightarrow> guesses st | None \<Rightarrow> []);
                            newGuess = \<lparr>word = toUpperCase e guess, feedback = fb\<rparr>;
                            updatedGuesses = existingGuesses @ [newGuess];
                            over = (isCorrect \<or> 6 \<le> length updatedGuesses) in
                        (case saveGameStateInternal e d1 dt updatedGuesses over of
                           Inl err \<Rightarrow> (d1, Inl err)
                         | Inr d2 \<Rightarrow>
                             (d2, Inr \<lparr>res_feedback = fb, res_isCorrect = isCorrect,
                                       res_isGameOver = over\<rparr>)))))"

section \<open>The client's keyboard\<close>

text \<open>
  The client keeps guesses whose feedback slots may be \<open>null\<close> (\<open>None\<close>).
  \<open>isLetterAbsent\<close> is four nested loops; each function below is one of them, with the
  \<open>break\<close> or \<open>return true\<close> as the branch that stops the recursion. \<open>upper\<close> is
  \<open>letter.toUpperCase()\<close>, \<open>history\<close> is the state \<open>guesses\<close>, and \<open>word[i]\<close> is a string
  of one code unit.
\<close>

fun foundInWord :: "string \<Rightarrow> feedback option guess \<Rightarrow> nat list \<Rightarrow> bool" where
  "foundInWord upper otherGuess [] = False"
| "foundInWord upper otherGuess (j # js) =
     (if [word otherGuess ! j] = upper \<and>
         (at (feedback otherGuess) j = Some (Some Present) \<or>
          at (feedback otherGuess) j = Some (Some Correct))
      then True
      else foundInWord upper otherGuess js)"

fun foundPresentOrCorrect :: "string \<Rightarrow> feedback option guess list \<Rightarrow> bool" where
  "foundPresentOrCorrect upper [] = False"
| "foundPresentOrCorrect upper (otherGuess # rest) =
     (if foundInWord upper otherGuess [0..<length (word otherGuess)] then True
      else foundPresentOrCorrect upper rest)"

fun absentInWord :: "string \<Rightarrow> feedback option guess list \<Rightarrow> feedback option guess \<Rightarrow> nat list \<Rightarrow> bool" where
  "absentInWord upper allGuesses g [] = False"
| "absentInWord upper allGuesses g (i # is) =
     (if [word g ! i] = upper \<and> at (feedback g) i = Some (Some Absent) \<and>
         \<not> foundPresentOrCorrect upper allGuesses
      then True
      else absentInWord upper allGuesses g is)"

fun absentInGuesses :: "string \<Rightarrow> feedback option guess list \<Rightarrow> feedback option guess list \<Rightarrow> bool" where
  "absentInGuesses upper allGuesses [] = False"
| "absentInGuesses upper allGuesses (g # rest) =
     (if absentInWord upper allGuesses g [0..<length (word g)] then True
      else absentInGuesses upper allGuesses rest)"

definition isLetterAbsent :: "(string \<Rightarrow> string) \<Rightarrow> feedback option guess list \<Rightarrow> string \<Rightarrow> bool" where
  "isLetterAbsent toUpper history letter = absentInGuesses (toUpper letter) history history"

definition getKeyColor :: "(string \<Rightarrow> string) \<Rightarrow> feedback option guess list \<Rightarrow> string \<Rightarrow> string" where
  "getKeyColor toUpper history letter =
     (if isLetterAbsent toUpper history letter
      then ''bg-gray-500 text-white dark:bg-gray-600 opacity-50''
      else ''bg-gray-200 dark:bg-gray-700 text-gray-900 dark:text-gray-100'')"

definition keyboardRows :: "string list list" where
  "keyboardRows =
     [[''Q'', ''W'', ''E'', ''R'', ''T'', ''Y'', ''U'', ''I'', ''O'', ''P''],
      [''A'', ''S'', ''D'', ''F'', ''G'', ''H'', ''J'', ''K'', ''L''],
      [''Z'', ''X'', ''C'', ''V'', ''B'', ''N'', ''M'']]"

section \<open>Concrete inputs\<close>

text \<open>
  On strings of ASCII characters the runtime's case mappings are these two.
\<close>

definition asciiLower :: "string \<Rightarrow> string" where
  "asciiLower = map (\<lambda>c. case map_of (zip ''ABCDEFGHIJKLMNOPQRSTUVWXYZ''
                                            ''abcdefghijklmnopqrstuvwxyz'') c of
                           Some l \<Rightarrow> l | None \<Rightarrow> c)"

definition asciiUpper :: "string \<Rightarrow> string" where
  "asciiUpper = map (\<lambda>c. case map_of (zip ''abcdefghijklmnopqrstuvwxyz''
                                            ''ABCDEFGHIJKLMNOPQRSTUVWXYZ'') c of
                           Some u \<Rightarrow> u | None \<Rightarrow> c)"

text \<open>
  A signed-in user whose \<open>users\<close> row has the document id \<open>''k57a''\<close> and the subject
  \<open>''user_2ab''\<close> as \<open>externalId\<close>; a puzzle source that knows one date.
\<close>

definition lightData :: puzzleData where
  "lightData = \<lparr>pd_solution = ''light'', pd_id = 1, print_date = ''2024-01-02'',
                days_since_launch = 929\<rparr>"

definition player :: env where
  "player = \<lparr>identity = Some ''user_2ab'', currentUser = Some ''k57a'',
             fetch = (\<lambda>dt. if dt = ''2024-01-02'' then Inr lightData else Inl ''Not Found''),
             toLowerCase = asciiLower, toUpperCase = asciiUpper\<rparr>"

definition light :: wordle where
  "light = \<lparr>w_date = ''2024-01-01'', solution = ''LIGHT'', puzzleId = 1,
            printDate = ''2024-01-01'', daysSinceLaunch = 928\<rparr>"

definition newGame :: db where
  "newGame = \<lparr>wordles = [light], wordleGameStates = []\<rparr>"

text \<open>
  A wrong guess as it is stored, and the tables with the puzzle of 2024-01-01 and one
  game row of a given user id.
\<close>

definition crane :: "feedback guess" where
  "crane = \<lparr>word = ''CRANE'', feedback = [Absent, Absent, Absent, Absent, Absent]\<rparr>"

definition gameOf :: "string \<Rightarrow> feedback guess list \<Rightarrow> bool \<Rightarrow> db" where
  "gameOf uid gs over =
     \<lparr>wordles = [light],
      wordleGameStates = [\<lparr>userId = uid, date = ''2024-01-01'', guesses = gs, isGameOver = over\<rparr>]\<rparr>"

text \<open>
  The same user, were the document id of the \<open>users\<close> row the subject itself: for this
  user the handler reads the game row that it writes.
\<close>

definition sameIdPlayer :: env where
  "sameIdPlayer = player\<lparr>currentUser := Some ''user_2ab''\<rparr>"

text \<open>
  A run of submissions for one date, each on the tables that the one before left.
\<close>

fun submitAll :: "env \<Rightarrow> db \<Rightarrow> string \<Rightarrow> string list \<Rightarrow> db \<times> (error + checkGuessResult) list" where
  "submitAll e d dt [] = (d, [])"
| "submitAll e d dt (g # gs) =
     (case checkGuess e d dt g of
        (d1, r) \<Rightarrow> (case submitAll e d1 dt gs of (d2, rs) \<Rightarrow> (d2, r # rs)))"

section \<open>Notions used in the statements\<close>

text \<open>
  The value that the second pass writes into slot \<open>j\<close>, given the array \<open>fb\<close> at that
  moment and the number \<open>c\<close> of matches of the pattern.
\<close>

definition mark :: "string \<Rightarrow> string \<Rightarrow> feedback option list \<Rightarrow> nat \<Rightarrow> nat \<Rightarrow> feedback" where
  "mark g s fb j c =
     (if g ! j \<in> set s \<and> correctCount s g (g ! j) + alreadyMarkedPresent g fb j (g ! j) < c
      then Present else Absent)"

text \<open>
  A character that, as a pattern, is a regular expression matching exactly itself.
\<close>

definition regexp_literal :: "char \<Rightarrow> bool" where
  "regexp_literal c \<longleftrightarrow>
     \<not> regexp_invalid c \<and> c \<notin> set [CHR ''.'', CHR ''^'', CHR ''$'', CHR ''|'']"

text \<open>
  The three counts of the scoring rule, read off a finished feedback \<open>f\<close> of a guess \<open>g\<close>:
  the occurrences of \<open>L\<close> in the solution, the occurrences of \<open>L\<close> in the guess that are
  marked \<open>correct\<close>, and those before position \<open>i\<close> that are marked \<open>present\<close>.
\<close>

definition spec_solutionCount :: "string \<Rightarrow> char \<Rightarrow> nat" where
  "spec_solutionCount s L = count_list s L"

definition spec_correctCount :: "string \<Rightarrow> feedback list \<Rightarrow> char \<Rightarrow> nat" where
  "spec_correctCount g f L = length (filter (\<lambda>j. g ! j = L \<and> f ! j = Correct) [0..<5])"

definition spec_alreadyPresentCount :: "string \<Rightarrow> feedback list \<Rightarrow> nat \<Rightarrow> char \<Rightarrow> nat" where
  "spec_alreadyPresentCount g f i L =
     length (filter (\<lambda>j. g ! j = L \<and> f ! j = Present) [0..<i])"

text \<open>
  Some occurrence of the letter \<open>L\<close> (a string of one code unit) in the guess history is
  marked \<open>v\<close>.
\<close>

definition marked :: "string \<Rightarrow> feedback option guess list \<Rightarrow> feedback \<Rightarrow> bool" where
  "marked L history v \<longleftrightarrow>
     (\<exists>g \<in> set history. \<exists>i \<in> {0..<length (word g)}.
        [word g ! i] = L \<and> at (feedback g) i = Some (Some v))"

section \<open>Worked examples\<close>

text \<open>
  C8. Guess "NIGHT" against solution "LIGHT" is scored absent, correct, correct, correct,
  correct: by the calculation on the two normalised strings, and by a submission to a game
  without a row. A first submission of "LIGHT" is scored five times correct, is correct,
  and ends the game; the row then holds that one guess.
\<close>

theorem light_examples:
  "calculateFeedback (asciiLower ''NIGHT'') (asciiLower ''LIGHT'')
     = Inr [Absent, Correct, Correct, Correct, Correct] \<and>
   snd (checkGuess player newGame ''2024-01-01'' ''NIGHT'')
     = Inr \<lparr>res_feedback = [Absent, Correct, Correct, Correct, Correct],
            res_isCorrect = False, res_isGameOver = False\<rparr> \<and>
   checkGuess player newGame ''2024-01-01'' ''LIGHT''
     = (\<lparr>wordles = [light],
         wordleGameStates =
           [\<lparr>userId = ''k57a'', date = ''2024-01-01'',
             guesses = [\<lparr>word = ''LIGHT'',
                         feedback = [Correct, Correct, Correct, Correct, Correct]\<rparr>],
             isGameOver = True\<rparr>]\<rparr>,
        Inr \<lparr>res_feedback = [Correct, Correct, Correct, Correct, Correct],
             res_isCorrect = True, res_isGameOver = True\<rparr>)"
  by code_simp

section \<open>The feedback calculation: what the two passes leave in the array\<close>

lemma at_Some_iff: "at xs i = Some x \<longleftrightarrow> i < length xs \<and> xs ! i = x"
  by (auto simp: at_def)

lemma length_firstPass [simp]: "length (firstPass is g s fb) = length fb"
  by (induction "is" arbitrary: fb) auto

lemma firstPass_nth:
  "j < length fb \<Longrightarrow>
   firstPass is g s fb ! j = (if j \<in> set is \<and> at g j = at s j then Some Correct else fb ! j)"
proof (induction "is" arbitrary: fb)
  case Nil
  then show ?case by simp
next
  case (Cons a "is")
  show ?case
  proof (cases "a = j")
    case True
    then show ?thesis using Cons by simp
  next
    case False
    then show ?thesis using Cons by (simp add: nth_list_update)
  qed
qed

lemma alreadyMarkedPresent_cong:
  "length fb = length fb' \<Longrightarrow> (\<forall>idx<i. fb ! idx = fb' ! idx) \<Longrightarrow>
   alreadyMarkedPresent g fb i L = alreadyMarkedPresent g fb' i L"
  unfolding alreadyMarkedPresent_def
  by (rule arg_cong[where f=length], rule filter_cong) (auto simp: at_def)

text \<open>
  The second pass over the indices \<open>k, ..., n - 1\<close>: when it returns, a slot that held
  \<open>correct\<close> still does, every other slot of the range holds the mark computed from the
  slots before it, and nothing outside the range has changed.
\<close>

lemma secondPass_upt:
  "secondPass [k..<n] g s fb = Inr fb' \<Longrightarrow> n \<le> length fb \<Longrightarrow>
   length fb' = length fb \<and>
   (\<forall>j. j < k \<or> n \<le> j \<longrightarrow> fb' ! j = fb ! j) \<and>
   (\<forall>j. k \<le> j \<and> j < n \<longrightarrow>
        (if fb ! j = Some Correct then fb' ! j = Some Correct
         else \<exists>c. match_length (g ! j) s = Inr c \<and> fb' ! j = Some (mark g s fb' j c)))"
proof (induction "n - k" arbitrary: k fb)
  case 0
  then show ?case by auto
next
  case (Suc d)
  then have kn: "k < n" and d: "d = n - Suc k" by auto
  have upt: "[k..<n] = k # [Suc k..<n]" using kn by (simp add: upt_conv_Cons)
  show ?case
  proof (cases "fb ! k = Some Correct")
    case True
    then have "secondPass [Suc k..<n] g s fb = Inr fb'"
      using Suc.prems kn by (simp add: upt at_def)
    from Suc.hyps(1)[OF d this Suc.prems(2)] True show ?thesis
      by (metis le_eq_less_or_eq not_less_eq_eq Suc_leD less_Suc_eq_le not_less)
  next
    case False
    then obtain c where c: "match_length (g ! k) s = Inr c"
      and rest: "secondPass [Suc k..<n] g s (fb[k := Some (mark g s fb k c)]) = Inr fb'"
      using Suc.prems kn by (auto simp: upt at_def mark_def Let_def split: sum.splits)
    let ?fb1 = "fb[k := Some (mark g s fb k c)]"
    have len1: "n \<le> length ?fb1" using Suc.prems(2) by simp
    note IH = Suc.hyps(1)[OF d rest len1]
    have len: "length fb' = length fb" using IH by simp
    have before: "\<forall>j<Suc k. fb' ! j = ?fb1 ! j" using IH by blast
    have same: "alreadyMarkedPresent g fb' k (g ! k) = alreadyMarkedPresent g fb k (g ! k)"
      by (rule alreadyMarkedPresent_cong) (use len before in \<open>auto simp: nth_list_update\<close>)
    have atk: "fb' ! k = Some (mark g s fb' k c)"
      using before kn Suc.prems(2) same by (simp add: mark_def)
    show ?thesis
    proof (intro conjI allI impI)
      show "length fb' = length fb" by (rule len)
    next
      fix j assume "j < k \<or> n \<le> j"
      then show "fb' ! j = fb ! j" using IH kn by (auto simp: nth_list_update)
    next
      fix j assume j: "k \<le> j \<and> j < n"
      show "if fb ! j = Some Correct then fb' ! j = Some Correct
            else \<exists>c. match_length (g ! j) s = Inr c \<and> fb' ! j = Some (mark g s fb' j c)"
      proof (cases "j = k")
        case True
        then show ?thesis using False c atk by simp
      next
        case False
        then have "Suc k \<le> j \<and> j < n" using j by simp
        with IH have "if ?fb1 ! j = Some Correct then fb' ! j = Some Correct
            else \<exists>c. match_length (g ! j) s = Inr c \<and> fb' ! j = Some (mark g s fb' j c)" by blast
        with False show ?thesis by (simp add: nth_list_update)
      qed
    qed
  qed
qed

lemma those_Some:
  "those xs = Some ys \<Longrightarrow> length ys = length xs \<and> (\<forall>i<length xs. xs ! i = Some (ys ! i))"
proof (induction xs arbitrary: ys)
  case Nil
  then show ?case by simp
next
  case (Cons x xs)
  then obtain y zs where x: "x = Some y" and zs: "those xs = Some zs" and ys: "ys = y # zs"
    by (auto split: option.splits)
  from Cons.IH[OF zs] show ?case using x ys by (auto simp: nth_Cons split: nat.splits)
qed

lemma those_total:
  "(\<forall>i<length xs. xs ! i \<noteq> None) \<Longrightarrow> \<exists>ys. those xs = Some ys"
proof (induction xs)
  case Nil
  then show ?case by simp
next
  case (Cons x xs)
  have "x \<noteq> None" using Cons.prems by (metis length_greater_0_conv list.discI nth_Cons_0)
  moreover have "\<forall>i<length xs. xs ! i \<noteq> None" using Cons.prems by fastforce
  ultimately show ?case using Cons.IH by auto
qed

lemma match_length_valid: "\<not> regexp_invalid c \<Longrightarrow> \<exists>n. match_length c s = Inr n"
  by (simp add: match_length_def)

lemma secondPass_step:
  "k < n \<Longrightarrow> n \<le> length fb \<Longrightarrow>
   secondPass [k..<n] g s fb =
     (if fb ! k = Some Correct then secondPass [Suc k..<n] g s fb
      else case match_length (g ! k) s of
             Inl e \<Rightarrow> Inl e
           | Inr c \<Rightarrow> secondPass [Suc k..<n] g s (fb[k := Some (mark g s fb k c)]))"
  by (simp add: upt_conv_Cons at_def mark_def Let_def split: sum.splits)

lemma secondPass_total:
  "n \<le> length fb \<Longrightarrow>
   (\<forall>j. k \<le> j \<and> j < n \<longrightarrow> fb ! j = Some Correct \<or> \<not> regexp_invalid (g ! j)) \<Longrightarrow>
   \<exists>fb'. secondPass [k..<n] g s fb = Inr fb'"
proof (induction "n - k" arbitrary: k fb)
  case 0
  then show ?case by simp
next
  case (Suc d)
  then have kn: "k < n" and d: "d = n - Suc k" by auto
  have upt: "[k..<n] = k # [Suc k..<n]" using kn by (simp add: upt_conv_Cons)
  show ?case
  proof (cases "fb ! k = Some Correct")
    case True
    have "\<exists>fb'. secondPass [Suc k..<n] g s fb = Inr fb'"
      by (rule Suc.hyps(1)[OF d Suc.prems(1)]) (use Suc.prems(2) in auto)
    then show ?thesis using True kn Suc.prems(1) by (simp add: upt at_def)
  next
    case False
    then have valid: "\<not> regexp_invalid (g ! k)" using Suc.prems(2) kn by auto
    then obtain c where c: "match_length (g ! k) s = Inr c"
      using match_length_valid by blast
    let ?fb1 = "fb[k := Some (mark g s fb k c)]"
    have "\<exists>fb'. secondPass [Suc k..<n] g s ?fb1 = Inr fb'"
      by (rule Suc.hyps(1)[OF d]) (use Suc.prems in \<open>auto simp: nth_list_update\<close>)
    then show ?thesis using False kn c Suc.prems(1) by (simp add: secondPass_step)
  qed
qed

lemma secondPass_error:
  "secondPass [k..<n] g s fb = Inl e \<Longrightarrow> n \<le> length fb \<Longrightarrow>
   \<exists>j. k \<le> j \<and> j < n \<and> fb ! j \<noteq> Some Correct \<and> regexp_invalid (g ! j) \<and> e = SyntaxError (g ! j)"
proof (induction "n - k" arbitrary: k fb)
  case 0
  then show ?case by simp
next
  case (Suc d)
  then have kn: "k < n" and d: "d = n - Suc k" by auto
  have upt: "[k..<n] = k # [Suc k..<n]" using kn by (simp add: upt_conv_Cons)
  show ?case
  proof (cases "fb ! k = Some Correct")
    case True
    then have "secondPass [Suc k..<n] g s fb = Inl e"
      using Suc.prems kn by (simp add: upt at_def)
    from Suc.hyps(1)[OF d this Suc.prems(2)] show ?thesis by (metis Suc_leD)
  next
    case False
    show ?thesis
    proof (cases "match_length (g ! k) s")
      case (Inl e')
      then have "e' = e" using False Suc.prems kn by (simp add: upt at_def)
      moreover have "regexp_invalid (g ! k) \<and> e' = SyntaxError (g ! k)"
        using Inl by (auto simp: match_length_def split: if_splits)
      ultimately show ?thesis using False kn by auto
    next
      case (Inr c)
      let ?fb1 = "fb[k := Some (mark g s fb k c)]"
      have rest: "secondPass [Suc k..<n] g s ?fb1 = Inl e"
        using False Inr Suc.prems kn by (simp add: secondPass_step)
      have "n \<le> length ?fb1" using Suc.prems(2) by simp
      from Suc.hyps(1)[OF d rest this]
      obtain j where "Suc k \<le> j" "j < n" "?fb1 ! j \<noteq> Some Correct" "regexp_invalid (g ! j)" "e = SyntaxError (g ! j)"
        by blast
      then show ?thesis by (intro exI[of _ j]) (auto simp: nth_list_update)
    qed
  qed
qed

lemma firstPass_start:
  "j < 5 \<Longrightarrow>
   firstPass [0..<5] g s (replicate 5 None) ! j = (if at g j = at s j then Some Correct else None)"
  by (simp add: firstPass_nth)

text \<open>
  What \<open>calculateFeedback\<close> returns: five values; \<open>correct\<close> where the two strings agree,
  and elsewhere the mark that the counts decide, with the marks to the left as they are
  in the result.
\<close>

lemma calculateFeedback_Inr:
  assumes "calculateFeedback g s = Inr f" and "length g = 5"
  shows "length f = 5"
    and "\<And>j. j < 5 \<Longrightarrow> at s j = Some (g ! j) \<Longrightarrow> f ! j = Correct"
    and "\<And>j. j < 5 \<Longrightarrow> at s j \<noteq> Some (g ! j) \<Longrightarrow>
           \<exists>c. match_length (g ! j) s = Inr c \<and> f ! j = mark g s (map Some f) j c"
proof -
  let ?fb0 = "firstPass [0..<5] g s (replicate 5 None)"
  from assms(1) obtain fb where fb: "secondPass [0..<5] g s ?fb0 = Inr fb"
    and f: "(case those fb of Some f' \<Rightarrow> f' | None \<Rightarrow> []) = f"
    by (auto simp: calculateFeedback_def split: sum.splits option.splits)
  have len0: "5 \<le> length ?fb0" by simp
  note sp = secondPass_upt[OF fb len0]
  have lenfb: "length fb = 5" using sp by simp
  have slot: "\<And>j. j < 5 \<Longrightarrow>
        (if ?fb0 ! j = Some Correct then fb ! j = Some Correct
         else \<exists>c. match_length (g ! j) s = Inr c \<and> fb ! j = Some (mark g s fb j c))"
    using sp by simp
  have some: "\<forall>i<length fb. fb ! i \<noteq> None"
  proof (intro allI impI)
    fix i assume "i < length fb"
    then have "i < 5" using lenfb by simp
    from slot[OF this] show "fb ! i \<noteq> None" by (auto split: if_splits)
  qed
  from those_total[OF some] obtain f' where f': "those fb = Some f'" by blast
  then have ff: "f' = f" using f by simp
  from those_Some[OF f'] have lenf: "length f = length fb"
    and nth: "\<And>i. i < length fb \<Longrightarrow> fb ! i = Some (f ! i)" using ff by auto
  have fbmap: "fb = map Some f"
    by (rule nth_equalityI) (use lenf nth in auto)
  show "length f = 5" using lenf lenfb by simp
  {
    fix j :: nat assume j: "j < 5" and c: "at s j = Some (g ! j)"
    have "at g j = at s j" using c j assms(2) by (simp add: at_def)
    then have "?fb0 ! j = Some Correct" using j by (simp add: firstPass_start)
    with slot[OF j] have "fb ! j = Some Correct" by simp
    then show "f ! j = Correct" using nth[of j] j lenfb by simp
  }
  {
    fix j :: nat assume j: "j < 5" and c: "at s j \<noteq> Some (g ! j)"
    have "at g j \<noteq> at s j" using c j assms(2) by (simp add: at_def)
    then have "?fb0 ! j \<noteq> Some Correct" using j by (simp add: firstPass_start)
    with slot[OF j] obtain c where "match_length (g ! j) s = Inr c" "fb ! j = Some (mark g s fb j c)"
      by auto
    then show "\<exists>c. match_length (g ! j) s = Inr c \<and> f ! j = mark g s (map Some f) j c"
      using nth[of j] j lenfb fbmap by auto
  }
qed

lemma calculateFeedback_total:
  assumes "length g = 5" and "\<forall>j<5. at s j = Some (g ! j) \<or> \<not> regexp_invalid (g ! j)"
  shows "\<exists>f. calculateFeedback g s = Inr f"
proof -
  let ?fb0 = "firstPass [0..<5] g s (replicate 5 None)"
  have "\<forall>j. 0 \<le> j \<and> j < 5 \<longrightarrow> ?fb0 ! j = Some Correct \<or> \<not> regexp_invalid (g ! j)"
  proof (intro allI impI)
    fix j :: nat assume j: "0 \<le> j \<and> j < 5"
    then have "at s j = Some (g ! j) \<or> \<not> regexp_invalid (g ! j)" using assms(2) by simp
    moreover have "at s j = Some (g ! j) \<Longrightarrow> at g j = at s j" using j assms(1) by (simp add: at_def)
    ultimately show "?fb0 ! j = Some Correct \<or> \<not> regexp_invalid (g ! j)"
      using j by (auto simp: firstPass_start)
  qed
  from secondPass_total[OF _ this] obtain fb where "secondPass [0..<5] g s ?fb0 = Inr fb"
    by auto
  then show ?thesis by (simp add: calculateFeedback_def split: option.splits)
qed

lemma calculateFeedback_Inl:
  assumes "calculateFeedback g s = Inl e" and "length g = 5"
  shows "\<exists>j<5. at s j \<noteq> Some (g ! j) \<and> regexp_invalid (g ! j) \<and> e = SyntaxError (g ! j)"
proof -
  let ?fb0 = "firstPass [0..<5] g s (replicate 5 None)"
  from assms(1) have "secondPass [0..<5] g s ?fb0 = Inl e"
    by (auto simp: calculateFeedback_def split: sum.splits option.splits)
  from secondPass_error[OF this] obtain j where j: "j < 5" "?fb0 ! j \<noteq> Some Correct"
    "regexp_invalid (g ! j)" "e = SyntaxError (g ! j)" by auto
  have "at s j \<noteq> Some (g ! j)"
  proof
    assume "at s j = Some (g ! j)"
    then have "at g j = at s j" using j(1) assms(2) by (simp add: at_def)
    then show False using j by (simp add: firstPass_start)
  qed
  then show ?thesis using j by blast
qed

lemma sum_list_indicator:
  "sum_list (map (\<lambda>x. if P x then 1 else 0) xs) = length (filter P xs)"
  by (induction xs) auto

lemma length_filter_upt: "length (filter P [0..<n]) = card {i. i < n \<and> P i}"
proof -
  have "distinct (filter P [0..<n])" by simp
  then have "card (set (filter P [0..<n])) = length (filter P [0..<n])"
    by (rule distinct_card)
  moreover have "set (filter P [0..<n]) = {i. i < n \<and> P i}" by auto
  ultimately show ?thesis by simp
qed

lemma correctCount_spec:
  assumes "length g = 5" and "\<And>j. j < 5 \<Longrightarrow> f ! j = Correct \<longleftrightarrow> at s j = Some (g ! j)"
  shows "correctCount s g L = spec_correctCount g f L"
proof -
  have "{i. i < length s \<and> s ! i = L \<and> at g i = Some L} = {j. j < 5 \<and> g ! j = L \<and> f ! j = Correct}"
    using assms by (auto simp: at_Some_iff)
  then show ?thesis
    by (simp add: correctCount_def spec_correctCount_def sum_list_indicator length_filter_upt)
qed

lemma alreadyMarkedPresent_spec:
  assumes "length g = 5" and "length f = 5" and "i < 5"
  shows "alreadyMarkedPresent g (map Some f) i L = spec_alreadyPresentCount g f i L"
proof -
  have "{j. j < i \<and> g ! j = L \<and> at (map Some f) j = Some (Some Present)}
        = {j. j < i \<and> g ! j = L \<and> f ! j = Present}"
    using assms by (auto simp: at_def)
  moreover have "min i (length g) = i" using assms by simp
  ultimately show ?thesis
    by (simp add: alreadyMarkedPresent_def spec_alreadyPresentCount_def length_filter_upt)
qed

lemma match_length_literal: "regexp_literal c \<Longrightarrow> match_length c s = Inr (count_list s c)"
  by (simp add: regexp_literal_def match_length_def)

lemma count_list_nth: "count_list xs x = card {i. i < length xs \<and> xs ! i = x}"
proof -
  have "{i. i < length xs \<and> x = xs ! i} = {i. i < length xs \<and> xs ! i = x}" by auto
  then show ?thesis by (simp add: count_list_eq_length_filter length_filter_conv_card)
qed

text \<open>
  Whenever the calculation returns, it returns five values, and \<open>correct\<close> exactly at the
  positions where guess and solution agree.
\<close>

lemma calculateFeedback_correct_iff:
  assumes "calculateFeedback g s = Inr f" and "length g = 5" and "j < 5"
  shows "f ! j = Correct \<longleftrightarrow> at s j = Some (g ! j)"
proof
  assume c: "f ! j = Correct"
  show "at s j = Some (g ! j)"
  proof (rule ccontr)
    assume "at s j \<noteq> Some (g ! j)"
    from calculateFeedback_Inr(3)[OF assms(1,2) assms(3) this]
    show False using c by (auto simp: mark_def split: if_splits)
  qed
next
  assume "at s j = Some (g ! j)"
  then show "f ! j = Correct" using calculateFeedback_Inr(2)[OF assms(1,2) assms(3)] by simp
qed

lemma calculateFeedback_count_correct:
  assumes "calculateFeedback g s = Inr f" and "length g = 5"
  shows "length f = 5 \<and> count_list f Correct = card {i. i < 5 \<and> at s i = Some (g ! i)}"
proof -
  have len: "length f = 5" by (rule calculateFeedback_Inr(1)[OF assms])
  have "{i. i < length f \<and> f ! i = Correct} = {i. i < 5 \<and> at s i = Some (g ! i)}"
    using calculateFeedback_correct_iff[OF assms] len by auto
  then show ?thesis using len by (simp add: count_list_nth)
qed

text \<open>
  The scoring rule in the words of the counts: a position that is not \<open>correct\<close> is
  \<open>present\<close> exactly when the solution contains its letter and the letter's \<open>correct\<close>
  marks and the \<open>present\<close> marks to the left are fewer than its matches in the solution.
\<close>

lemma calculateFeedback_present_iff:
  assumes "calculateFeedback g s = Inr f" and "length g = 5" and "j < 5"
    and "at s j \<noteq> Some (g ! j)"
  shows "\<exists>c. match_length (g ! j) s = Inr c \<and>
           (f ! j = Present \<longleftrightarrow>
              g ! j \<in> set s \<and>
              spec_correctCount g f (g ! j) + spec_alreadyPresentCount g f j (g ! j) < c) \<and>
           (f ! j = Absent \<longleftrightarrow>
              \<not> (g ! j \<in> set s \<and>
                 spec_correctCount g f (g ! j) + spec_alreadyPresentCount g f j (g ! j) < c))"
proof -
  have len: "length f = 5" by (rule calculateFeedback_Inr(1)[OF assms(1,2)])
  from calculateFeedback_Inr(3)[OF assms(1,2) assms(3,4)]
  obtain c where c: "match_length (g ! j) s = Inr c" and m: "f ! j = mark g s (map Some f) j c"
    by blast
  have cc: "correctCount s g (g ! j) = spec_correctCount g f (g ! j)"
    by (rule correctCount_spec[OF assms(2)]) (rule calculateFeedback_correct_iff[OF assms(1,2)])
  have ap: "alreadyMarkedPresent g (map Some f) j (g ! j) = spec_alreadyPresentCount g f j (g ! j)"
    by (rule alreadyMarkedPresent_spec[OF assms(2) len assms(3)])
  show ?thesis using c m cc ap by (intro exI[of _ c]) (auto simp: mark_def)
qed

lemma spec_alreadyPresentCount_pos:
  "j < i \<Longrightarrow> g ! j = L \<Longrightarrow> f ! j = Present \<Longrightarrow> 0 < spec_alreadyPresentCount g f i L"
  unfolding spec_alreadyPresentCount_def
  by (rule length_pos_if_in_set) simp

lemma spec_alreadyPresentCount_0:
  "spec_alreadyPresentCount g f i L = 0 \<Longrightarrow> j < i \<Longrightarrow> g ! j = L \<Longrightarrow> f ! j \<noteq> Present"
  using spec_alreadyPresentCount_pos[of j i g L f] by auto

lemma match_length_single:
  assumes "match_length L S = Inr c" and "count_list S L = 1"
    and "L \<noteq> CHR ''.''" and "L \<noteq> CHR ''|''"
  shows "c = 1"
  using assms by (auto simp: match_length_def split: if_splits)

text \<open>
  C7. The solution has exactly one \<open>L\<close>; the guess has \<open>L\<close> at \<open>p\<close> and at \<open>q\<close>, \<open>p\<close> before
  \<open>q\<close>, and neither is marked \<open>correct\<close>. Then the two are not both \<open>present\<close>, and if one
  of them is, it is \<open>p\<close>; indeed \<open>q\<close> is \<open>absent\<close>. \<open>L\<close> is any character but the two
  patterns \<open>.\<close> and \<open>|\<close>, which match more than themselves; so it is any letter.
\<close>

theorem duplicate_letter_leftmost:
  assumes "length G = 5"
    and "count_list S L = 1"
    and "L \<noteq> CHR ''.''" and "L \<noteq> CHR ''|''"
    and "p < q" and "q < 5" and "G ! p = L" and "G ! q = L"
    and "calculateFeedback G S = Inr f"
    and "f ! p \<noteq> Correct" and "f ! q \<noteq> Correct"
  shows "\<not> (f ! p = Present \<and> f ! q = Present) \<and>
         ((f ! p = Present) \<noteq> (f ! q = Present) \<longrightarrow> f ! p = Present) \<and>
         f ! q = Absent"
proof -
  note cf = assms(9) and len = assms(1)
  have p5: "p < 5" using assms(5,6) by simp
  have inS: "L \<in> set S" using assms(2) count_list_0_iff[of S L] by auto
  have np: "at S p \<noteq> Some (G ! p)"
    using calculateFeedback_correct_iff[OF cf len p5] assms(10) by simp
  have nq: "at S q \<noteq> Some (G ! q)"
    using calculateFeedback_correct_iff[OF cf len assms(6)] assms(11) by simp
  from calculateFeedback_present_iff[OF cf len p5 np] assms(7)
  obtain c where c: "match_length L S = Inr c"
    and pP: "f ! p = Present \<longleftrightarrow>
             L \<in> set S \<and> spec_correctCount G f L + spec_alreadyPresentCount G f p L < c"
    and pA: "f ! p = Absent \<longleftrightarrow>
             \<not> (L \<in> set S \<and> spec_correctCount G f L + spec_alreadyPresentCount G f p L < c)"
    by auto
  from calculateFeedback_present_iff[OF cf len assms(6) nq] assms(8) c
  have qP: "f ! q = Present \<longleftrightarrow>
             L \<in> set S \<and> spec_correctCount G f L + spec_alreadyPresentCount G f q L < c"
    and qA: "f ! q = Absent \<longleftrightarrow>
             \<not> (L \<in> set S \<and> spec_correctCount G f L + spec_alreadyPresentCount G f q L < c)"
    by auto
  have c1: "c = 1" by (rule match_length_single[OF c assms(2,3,4)])
  have "f ! q \<noteq> Present"
  proof
    assume q: "f ! q = Present"
    then have cc0: "spec_correctCount G f L = 0" and apq: "spec_alreadyPresentCount G f q L = 0"
      using qP c1 by auto
    have "f ! p \<noteq> Present"
      by (rule spec_alreadyPresentCount_0[OF apq assms(5) assms(7)])
    then have "f ! p = Absent" using assms(10) by (cases "f ! p") auto
    then have "0 < spec_alreadyPresentCount G f p L" using pA inS cc0 c1 by auto
    then obtain j where j: "j < p" "G ! j = L" "f ! j = Present"
      unfolding spec_alreadyPresentCount_def
      by (metis (mono_tags, lifting) length_greater_0_conv filter_empty_conv atLeastLessThan_iff
          set_upt)
    then have "j < q" using assms(5) by simp
    from spec_alreadyPresentCount_pos[OF this j(2,3)] apq show False by simp
  qed
  then have "f ! q = Absent" using assms(11) by (cases "f ! q") auto
  then show ?thesis by auto
qed

theorem duplicate_letter_leftmost_witness:
  "length ''robot'' = 5 \<and> count_list ''acorn'' CHR ''o'' = 1 \<and>
   ''robot'' ! 1 = CHR ''o'' \<and> ''robot'' ! 3 = CHR ''o'' \<and>
   calculateFeedback ''robot'' ''acorn'' = Inr [Present, Present, Absent, Absent, Absent] \<and>
   [Present, Present, Absent, Absent, Absent] ! 3 = Absent"
proof -
  let ?f = "[Present, Present, Absent, Absent, Absent]"
  have cf: "calculateFeedback ''robot'' ''acorn'' = Inr ?f" by code_simp
  have h1: "length ''robot'' = 5" by simp
  have h2: "count_list ''acorn'' CHR ''o'' = 1" by simp
  have h3: "CHR ''o'' \<noteq> CHR ''.''" and h4: "CHR ''o'' \<noteq> CHR ''|''" by simp_all
  have h5: "(1::nat) < 3" and h6: "(3::nat) < 5" by simp_all
  have h7: "''robot'' ! 1 = CHR ''o''" and h8: "''robot'' ! 3 = CHR ''o''" by simp_all
  have h9: "?f ! 1 \<noteq> Correct" and h10: "?f ! 3 \<noteq> Correct" by simp_all
  from duplicate_letter_leftmost[OF h1 h2 h3 h4 h5 h6 h7 h8 cf h9 h10]
  have "?f ! 3 = Absent" by blast
  then show ?thesis using cf h1 h2 h7 h8 by blast
qed

section \<open>The keyboard\<close>

lemma foundInWord_iff:
  "foundInWord U g js \<longleftrightarrow>
     (\<exists>j \<in> set js. [word g ! j] = U \<and>
        (at (feedback g) j = Some (Some Present) \<or> at (feedback g) j = Some (Some Correct)))"
  by (induction js) auto

lemma foundPresentOrCorrect_iff:
  "foundPresentOrCorrect U gs \<longleftrightarrow> marked U gs Present \<or> marked U gs Correct"
  by (induction gs) (auto simp: foundInWord_iff marked_def)

lemma absentInWord_iff:
  "absentInWord U allGuesses g is \<longleftrightarrow>
     (\<exists>i \<in> set is. [word g ! i] = U \<and> at (feedback g) i = Some (Some Absent)) \<and>
     \<not> foundPresentOrCorrect U allGuesses"
  by (induction "is") auto

lemma absentInGuesses_iff:
  "absentInGuesses U allGuesses gs \<longleftrightarrow>
     marked U gs Absent \<and> \<not> foundPresentOrCorrect U allGuesses"
  by (induction gs) (auto simp: absentInWord_iff marked_def)

text \<open>
  C9. The keyboard draws a key as known absent (the grey, half transparent style) exactly
  when some occurrence of its letter in the guess history is marked \<open>absent\<close> and no
  occurrence of it in any guess is marked \<open>present\<close> or \<open>correct\<close>. An occurrence is a
  position of a stored word that holds the upper-cased letter.
\<close>

theorem known_absent_iff:
  "(getKeyColor toUpper history letter = ''bg-gray-500 text-white dark:bg-gray-600 opacity-50'')
     = (isLetterAbsent toUpper history letter) \<and>
   isLetterAbsent toUpper history letter
     = (marked (toUpper letter) history Absent \<and>
        \<not> marked (toUpper letter) history Present \<and>
        \<not> marked (toUpper letter) history Correct)"
  by (auto simp: getKeyColor_def isLetterAbsent_def absentInGuesses_iff foundPresentOrCorrect_iff)

theorem known_absent_iff_witness:
  "isLetterAbsent asciiUpper
     [\<lparr>word = ''ERASE'', feedback = map Some [Present, Absent, Absent, Absent, Absent]\<rparr>,
      \<lparr>word = ''NOBLE'', feedback = map Some [Absent, Absent, Absent, Absent, Correct]\<rparr>] ''R'' \<and>
   \<not> isLetterAbsent asciiUpper
     [\<lparr>word = ''ERASE'', feedback = map Some [Present, Absent, Absent, Absent, Absent]\<rparr>,
      \<lparr>word = ''NOBLE'', feedback = map Some [Absent, Absent, Absent, Absent, Correct]\<rparr>] ''E''"
proof -
  let ?h = "[\<lparr>word = ''ERASE'', feedback = map Some [Present, Absent, Absent, Absent, Absent]\<rparr>,
      \<lparr>word = ''NOBLE'', feedback = map Some [Absent, Absent, Absent, Absent, Correct]\<rparr>]"
  have r: "asciiUpper ''R'' = ''R''" and e: "asciiUpper ''E'' = ''E''" by code_simp+
  have "marked ''R'' ?h Absent" "\<not> marked ''R'' ?h Present" "\<not> marked ''R'' ?h Correct"
    "marked ''E'' ?h Present"
    by code_simp+
  then show ?thesis
    using known_absent_iff[of asciiUpper ?h "''R''"] known_absent_iff[of asciiUpper ?h "''E''"] r e
    by simp
qed

section \<open>\<open>checkGuess\<close>: the checks in the order the handler makes them\<close>

lemma storePuzzle_gameStates [simp]:
  "wordleGameStates (storePuzzle d dt sol pid pdate days) = wordleGameStates d"
  by (simp add: storePuzzle_def split: option.splits)

lemma loadPuzzle_gameStates:
  "loadPuzzle e d dt = Inr (d1, sol) \<Longrightarrow> wordleGameStates d1 = wordleGameStates d"
  by (auto simp: loadPuzzle_def split: option.splits sum.splits)

lemma loadPuzzle_wordles:
  "loadPuzzle e d dt = Inr (d1, sol) \<Longrightarrow>
   (d1 = d \<and> (\<exists>p. getPuzzleFromDb d dt = Some p \<and> sol = solution p)) \<or>
   (getPuzzleFromDb d dt = None \<and>
    (\<exists>pd. fetch e dt = Inr pd \<and> sol = pd_solution pd \<and>
       d1 = d\<lparr>wordles := wordles d @
              [\<lparr>w_date = dt, solution = pd_solution pd, puzzleId = pd_id pd,
                printDate = print_date pd, daysSinceLaunch = days_since_launch pd\<rparr>]\<rparr>))"
  by (auto simp: loadPuzzle_def storePuzzle_def getPuzzleFromDb_def split: option.splits sum.splits)

lemma checkGuess_unauthenticated:
  "identity e = None \<Longrightarrow> checkGuess e d dt g = (d, Inl (Error ''Not authenticated''))"
  by (simp add: checkGuess_def)

lemma checkGuess_no_puzzle:
  "identity e = Some u \<Longrightarrow> loadPuzzle e d dt = Inl err \<Longrightarrow> checkGuess e d dt g = (d, Inl err)"
  by (simp add: checkGuess_def)

lemma checkGuess_length:
  "identity e = Some u \<Longrightarrow> loadPuzzle e d dt = Inr (d1, sol) \<Longrightarrow> length (toLowerCase e g) \<noteq> 5 \<Longrightarrow>
   checkGuess e d dt g = (d1, Inl (Error ''Guess must be 5 letters''))"
  by (simp add: checkGuess_def)

lemma checkGuess_maximum:
  "identity e = Some u \<Longrightarrow> loadPuzzle e d dt = Inr (d1, sol) \<Longrightarrow> length (toLowerCase e g) = 5 \<Longrightarrow>
   getGameStateInternal d1 u dt = Some st \<Longrightarrow> 6 \<le> length (guesses st) \<Longrightarrow>
   checkGuess e d dt g = (d1, Inl (Error ''Maximum guesses reached''))"
  by (simp add: checkGuess_def)

lemma checkGuess_over:
  "identity e = Some u \<Longrightarrow> loadPuzzle e d dt = Inr (d1, sol) \<Longrightarrow> length (toLowerCase e g) = 5 \<Longrightarrow>
   getGameStateInternal d1 u dt = Some st \<Longrightarrow> length (guesses st) < 6 \<Longrightarrow> isGameOver st \<Longrightarrow>
   checkGuess e d dt g = (d1, Inl (Error ''Game is already over''))"
  by (simp add: checkGuess_def)

text \<open>
  The state the handler works from: the guesses of the row it read, none without a row.
\<close>

lemma checkGuess_accepts:
  assumes "identity e = Some u" and "loadPuzzle e d dt = Inr (d1, sol)"
    and "length (toLowerCase e g) = 5"
    and "getGameStateInternal d1 u dt = None \<and> existing = [] \<or>
         (\<exists>st. getGameStateInternal d1 u dt = Some st \<and> length (guesses st) < 6 \<and>
               \<not> isGameOver st \<and> existing = guesses st)"
    and "calculateFeedback (toLowerCase e g) (toLowerCase e sol) = Inr fb"
    and "saveGameStateInternal e d1 dt
           (existing @ [\<lparr>word = toUpperCase e (toLowerCase e g), feedback = fb\<rparr>])
           (toLowerCase e g = toLowerCase e sol \<or> 6 \<le> length existing + 1) = Inr d2"
  shows "checkGuess e d dt g =
           (d2, Inr \<lparr>res_feedback = fb, res_isCorrect = (toLowerCase e g = toLowerCase e sol),
                     res_isGameOver = (toLowerCase e g = toLowerCase e sol \<or> 6 \<le> length existing + 1)\<rparr>)"
  using assms by (auto simp: checkGuess_def Let_def)

lemma checkGuess_error_gameStates:
  assumes "checkGuess e d dt g = (d', Inl err)"
  shows "wordleGameStates d' = wordleGameStates d"
proof (cases "identity e")
  case None
  then show ?thesis using assms by (simp add: checkGuess_def)
next
  case (Some u)
  show ?thesis
  proof (cases "loadPuzzle e d dt")
    case (Inl x)
    then show ?thesis using assms Some by (simp add: checkGuess_def)
  next
    case (Inr r)
    obtain d1 sol where r: "r = (d1, sol)" by (cases r)
    have "d' = d1"
      using assms Some Inr r
      by (auto simp: checkGuess_def Let_def split: if_splits sum.splits option.splits)
    then show ?thesis using loadPuzzle_gameStates Inr r by blast
  qed
qed

lemma saveGameStateInternal_wordles:
  "saveGameStateInternal e d dt gs over = Inr d2 \<Longrightarrow> wordles d2 = wordles d"
  by (auto simp: saveGameStateInternal_def split: option.splits)

lemma checkGuess_wordles:
  "wordles (fst (checkGuess e d dt g)) =
     (case identity e of
        None \<Rightarrow> wordles d
      | Some u \<Rightarrow> (case loadPuzzle e d dt of Inl err \<Rightarrow> wordles d | Inr (d1, sol) \<Rightarrow> wordles d1))"
  by (auto simp: checkGuess_def Let_def saveGameStateInternal_wordles
           split: option.splits sum.splits)

lemma loadPuzzle_hit:
  "getPuzzleFromDb d dt = Some p \<Longrightarrow> loadPuzzle e d dt = Inr (d, solution p)"
  by (simp add: loadPuzzle_def)

lemma loadPuzzle_fetch_failed:
  "getPuzzleFromDb d dt = None \<Longrightarrow> fetch e dt = Inl statusText \<Longrightarrow>
   loadPuzzle e d dt = Inl (Error (''Failed to fetch puzzle: '' @ statusText))"
  by (simp add: loadPuzzle_def)

lemma loadPuzzle_miss:
  "getPuzzleFromDb d dt = None \<Longrightarrow> fetch e dt = Inr pd \<Longrightarrow>
   loadPuzzle e d dt =
     Inr (d\<lparr>wordles := wordles d @
            [\<lparr>w_date = dt, solution = pd_solution pd, puzzleId = pd_id pd,
              printDate = print_date pd, daysSinceLaunch = days_since_launch pd\<rparr>]\<rparr>,
          pd_solution pd)"
  by (simp add: loadPuzzle_def storePuzzle_def getPuzzleFromDb_def)

text \<open>
  C5, as the handler has it. The checks come in this order: the identity; the puzzle
  of the date, fetched and stored at once when no row holds it; the length of the
  lower-cased guess; the game row of the identity's subject; six guesses; game over.
  Each rejection is the first check that fails, whatever the later ones would say. A
  call that fails leaves the game rows as they were. The puzzle table is written
  earlier: once the identity is known, the date has no row and the source answers, the
  fetched puzzle is appended whatever becomes of the call, and a call rejected for its
  length returns the tables with that row. Where the identity is missing or the date has
  a row the puzzle table stays as it is, and where the source fails the call fails with
  nothing written.
\<close>

theorem checkGuess_order:
  "(identity e = None \<longrightarrow> checkGuess e d dt g = (d, Inl (Error ''Not authenticated''))) \<and>
   (identity e = Some u \<and> loadPuzzle e d dt = Inl err \<longrightarrow> checkGuess e d dt g = (d, Inl err)) \<and>
   (identity e = Some u \<and> loadPuzzle e d dt = Inr (d1, sol) \<longrightarrow>
      wordleGameStates d1 = wordleGameStates d \<and>
      (length (toLowerCase e g) \<noteq> 5 \<longrightarrow>
         checkGuess e d dt g = (d1, Inl (Error ''Guess must be 5 letters''))) \<and>
      (length (toLowerCase e g) = 5 \<and> getGameStateInternal d1 u dt = Some st \<and>
       6 \<le> length (guesses st) \<longrightarrow>
         checkGuess e d dt g = (d1, Inl (Error ''Maximum guesses reached''))) \<and>
      (length (toLowerCase e g) = 5 \<and> getGameStateInternal d1 u dt = Some st \<and>
       length (guesses st) < 6 \<and> isGameOver st \<longrightarrow>
         checkGuess e d dt g = (d1, Inl (Error ''Game is already over'')))) \<and>
   (checkGuess e d dt g = (d', Inl err') \<longrightarrow> wordleGameStates d' = wordleGameStates d) \<and>
   (identity e = Some u \<and> getPuzzleFromDb d dt = None \<and> fetch e dt = Inr pd \<longrightarrow>
      wordles (fst (checkGuess e d dt g)) = wordles d @
        [\<lparr>w_date = dt, solution = pd_solution pd, puzzleId = pd_id pd,
          printDate = print_date pd, daysSinceLaunch = days_since_launch pd\<rparr>] \<and>
      (length (toLowerCase e g) \<noteq> 5 \<longrightarrow>
         checkGuess e d dt g =
           (d\<lparr>wordles := wordles d @
               [\<lparr>w_date = dt, solution = pd_solution pd, puzzleId = pd_id pd,
                 printDate = print_date pd, daysSinceLaunch = days_since_launch pd\<rparr>]\<rparr>,
            Inl (Error ''Guess must be 5 letters'')))) \<and>
   (identity e = Some u \<and> getPuzzleFromDb d dt = None \<and> fetch e dt = Inl statusText \<longrightarrow>
      checkGuess e d dt g = (d, Inl (Error (''Failed to fetch puzzle: '' @ statusText)))) \<and>
   (identity e = None \<or> getPuzzleFromDb d dt \<noteq> None \<longrightarrow>
      wordles (fst (checkGuess e d dt g)) = wordles d)"
proof (intro conjI impI)
  assume a: "identity e = Some u \<and> getPuzzleFromDb d dt = None \<and> fetch e dt = Inr pd"
  then show "wordles (fst (checkGuess e d dt g)) = wordles d @
        [\<lparr>w_date = dt, solution = pd_solution pd, puzzleId = pd_id pd,
          printDate = print_date pd, daysSinceLaunch = days_since_launch pd\<rparr>]"
    by (simp add: checkGuess_wordles loadPuzzle_miss)
  assume "length (toLowerCase e g) \<noteq> 5"
  with a show "checkGuess e d dt g =
           (d\<lparr>wordles := wordles d @
               [\<lparr>w_date = dt, solution = pd_solution pd, puzzleId = pd_id pd,
                 printDate = print_date pd, daysSinceLaunch = days_since_launch pd\<rparr>]\<rparr>,
            Inl (Error ''Guess must be 5 letters''))"
    using checkGuess_length[OF _ loadPuzzle_miss] by blast
next
  assume "identity e = Some u \<and> getPuzzleFromDb d dt = None \<and> fetch e dt = Inl statusText"
  then show "checkGuess e d dt g = (d, Inl (Error (''Failed to fetch puzzle: '' @ statusText)))"
    using checkGuess_no_puzzle[OF _ loadPuzzle_fetch_failed] by blast
next
  assume "identity e = None \<or> getPuzzleFromDb d dt \<noteq> None"
  then show "wordles (fst (checkGuess e d dt g)) = wordles d"
    by (auto simp: checkGuess_wordles loadPuzzle_hit split: option.splits)
qed (auto simp: checkGuess_unauthenticated checkGuess_no_puzzle checkGuess_length
      checkGuess_maximum checkGuess_over loadPuzzle_gameStates
      dest: checkGuess_error_gameStates)

text \<open>
  C5, as the claim has it, fails: a guess of three letters for a date whose puzzle is
  not stored yet is rejected for its length after the fetched puzzle has been stored;
  and where the puzzle source fails, that failure is reported, not the length.
\<close>

theorem invalid_length_after_puzzle_stored:
  "checkGuess player newGame ''2024-01-02'' ''abc''
     = (newGame\<lparr>wordles := [light,
                   \<lparr>w_date = ''2024-01-02'', solution = ''light'', puzzleId = 1,
                     printDate = ''2024-01-02'', daysSinceLaunch = 929\<rparr>]\<rparr>,
        Inl (Error ''Guess must be 5 letters'')) \<and>
   fst (checkGuess player newGame ''2024-01-02'' ''abc'') \<noteq> newGame \<and>
   checkGuess player newGame ''2024-01-03'' ''abc''
     = (newGame, Inl (Error ''Failed to fetch puzzle: Not Found''))"
  by code_simp

theorem checkGuess_order_witness:
  "checkGuess (player\<lparr>identity := None\<rparr>) newGame ''2024-01-03'' ''abc''
     = (newGame, Inl (Error ''Not authenticated'')) \<and>
   checkGuess player newGame ''2024-01-03'' ''abc''
     = (newGame, Inl (Error ''Failed to fetch puzzle: Not Found'')) \<and>
   checkGuess player newGame ''2024-01-01'' ''abc''
     = (newGame, Inl (Error ''Guess must be 5 letters'')) \<and>
   wordles (fst (checkGuess player newGame ''2024-01-01'' ''abc'')) = [light] \<and>
   checkGuess player newGame ''2024-01-02'' ''abc''
     = (newGame\<lparr>wordles := [light,
                   \<lparr>w_date = ''2024-01-02'', solution = ''light'', puzzleId = 1,
                     printDate = ''2024-01-02'', daysSinceLaunch = 929\<rparr>]\<rparr>,
        Inl (Error ''Guess must be 5 letters'')) \<and>
   wordles (fst (checkGuess player newGame ''2024-01-02'' ''light''))
     = [light, \<lparr>w_date = ''2024-01-02'', solution = ''light'', puzzleId = 1,
                 printDate = ''2024-01-02'', daysSinceLaunch = 929\<rparr>] \<and>
   map (\<lambda>r. (userId r, length (guesses r), isGameOver r))
       (wordleGameStates (fst (submitAll sameIdPlayer newGame ''2024-01-01''
          [''crane'', ''moist'', ''pound'', ''bulky'', ''fjord'', ''vexed''])))
     = [(''user_2ab'', 6, True)] \<and>
   checkGuess sameIdPlayer
       (fst (submitAll sameIdPlayer newGame ''2024-01-01''
          [''crane'', ''moist'', ''pound'', ''bulky'', ''fjord'', ''vexed'']))
       ''2024-01-01'' ''whack''
     = (fst (submitAll sameIdPlayer newGame ''2024-01-01''
          [''crane'', ''moist'', ''pound'', ''bulky'', ''fjord'', ''vexed'']),
        Inl (Error ''Maximum guesses reached'')) \<and>
   map (\<lambda>r. (userId r, length (guesses r), isGameOver r))
       (wordleGameStates (fst (checkGuess sameIdPlayer newGame ''2024-01-01'' ''light'')))
     = [(''user_2ab'', 1, True)] \<and>
   checkGuess sameIdPlayer (fst (checkGuess sameIdPlayer newGame ''2024-01-01'' ''light''))
       ''2024-01-01'' ''crane''
     = (fst (checkGuess sameIdPlayer newGame ''2024-01-01'' ''light''),
        Inl (Error ''Game is already over'')) \<and>
   wordleGameStates
       (fst (checkGuess sameIdPlayer (fst (checkGuess sameIdPlayer newGame ''2024-01-01'' ''light''))
          ''2024-01-01'' ''crane''))
     = wordleGameStates (fst (checkGuess sameIdPlayer newGame ''2024-01-01'' ''light''))"
proof -
  let ?row6 = "\<lparr>userId = ''user_2ab'', date = ''2024-01-01'',
       guesses =
         [\<lparr>word = ''CRANE'', feedback = [Absent, Absent, Absent, Absent, Absent]\<rparr>,
          \<lparr>word = ''MOIST'', feedback = [Absent, Absent, Present, Absent, Correct]\<rparr>,
          \<lparr>word = ''POUND'', feedback = [Absent, Absent, Absent, Absent, Absent]\<rparr>,
          \<lparr>word = ''BULKY'', feedback = [Absent, Absent, Present, Absent, Absent]\<rparr>,
          \<lparr>word = ''FJORD'', feedback = [Absent, Absent, Absent, Absent, Absent]\<rparr>,
          \<lparr>word = ''VEXED'', feedback = [Absent, Absent, Absent, Absent, Absent]\<rparr>],
       isGameOver = True\<rparr>"
  let ?full = "\<lparr>wordles = [light], wordleGameStates = [?row6]\<rparr>"
  let ?row1 = "\<lparr>userId = ''user_2ab'', date = ''2024-01-01'',
       guesses = [\<lparr>word = ''LIGHT'', feedback = [Correct, Correct, Correct, Correct, Correct]\<rparr>],
       isGameOver = True\<rparr>"
  let ?won = "\<lparr>wordles = [light], wordleGameStates = [?row1]\<rparr>"
  let ?stored = "\<lparr>w_date = ''2024-01-02'', solution = ''light'', puzzleId = 1,
                   printDate = ''2024-01-02'', daysSinceLaunch = 929\<rparr>"
  have full: "fst (submitAll sameIdPlayer newGame ''2024-01-01''
          [''crane'', ''moist'', ''pound'', ''bulky'', ''fjord'', ''vexed'']) = ?full"
    by code_simp
  have won: "fst (checkGuess sameIdPlayer newGame ''2024-01-01'' ''light'') = ?won"
    by code_simp
  have none: "identity (player\<lparr>identity := None\<rparr>) = None" by simp
  have some: "identity player = Some ''user_2ab''" by (simp add: player_def)
  have some': "identity sameIdPlayer = Some ''user_2ab''" by (simp add: sameIdPlayer_def player_def)
  have p3: "getPuzzleFromDb newGame ''2024-01-03'' = None" by code_simp
  have f3: "fetch player ''2024-01-03'' = Inl ''Not Found''" by code_simp
  have p2: "getPuzzleFromDb newGame ''2024-01-02'' = None" by code_simp
  have f2: "fetch player ''2024-01-02'' = Inr lightData" by code_simp
  have p1: "getPuzzleFromDb newGame ''2024-01-01'' \<noteq> None" by code_simp
  have l1: "loadPuzzle player newGame ''2024-01-01'' = Inr (newGame, ''LIGHT'')" by code_simp
  have lf: "loadPuzzle sameIdPlayer ?full ''2024-01-01'' = Inr (?full, ''LIGHT'')" by code_simp
  have lo: "loadPuzzle sameIdPlayer ?won ''2024-01-01'' = Inr (?won, ''LIGHT'')" by code_simp
  have len3: "length (toLowerCase player ''abc'') \<noteq> 5" by code_simp
  have len5w: "length (toLowerCase sameIdPlayer ''whack'') = 5" by code_simp
  have len5c: "length (toLowerCase sameIdPlayer ''crane'') = 5" by code_simp
  have sf: "getGameStateInternal ?full ''user_2ab'' ''2024-01-01'' = Some ?row6" by code_simp
  have so: "getGameStateInternal ?won ''user_2ab'' ''2024-01-01'' = Some ?row1" by code_simp
  have w1: "checkGuess (player\<lparr>identity := None\<rparr>) newGame ''2024-01-03'' ''abc''
     = (newGame, Inl (Error ''Not authenticated''))"
    using checkGuess_order[where e="player\<lparr>identity := None\<rparr>" and d=newGame
        and dt="''2024-01-03''" and g="''abc''"] none by blast
  have w2: "checkGuess player newGame ''2024-01-03'' ''abc''
     = (newGame, Inl (Error ''Failed to fetch puzzle: Not Found''))"
    using checkGuess_order[where e=player and d=newGame and dt="''2024-01-03''" and g="''abc''"
        and u="''user_2ab''" and statusText="''Not Found''"] some p3 f3
    by simp
  have w3: "checkGuess player newGame ''2024-01-01'' ''abc''
     = (newGame, Inl (Error ''Guess must be 5 letters''))"
    using checkGuess_order[where e=player and d=newGame and dt="''2024-01-01''" and g="''abc''"
        and u="''user_2ab''" and ?d1.0=newGame and sol="''LIGHT''"] some l1 len3
    by blast
  have w3': "wordles (fst (checkGuess player newGame ''2024-01-01'' ''abc'')) = [light]"
    using checkGuess_order[where e=player and d=newGame and dt="''2024-01-01''" and g="''abc''"] p1
    by (simp add: newGame_def)
  have w4: "checkGuess player newGame ''2024-01-02'' ''abc''
     = (newGame\<lparr>wordles := [light, ?stored]\<rparr>, Inl (Error ''Guess must be 5 letters''))"
    using checkGuess_order[where e=player and d=newGame and dt="''2024-01-02''" and g="''abc''"
        and u="''user_2ab''" and pd=lightData] some p2 f2 len3
    by (simp add: newGame_def lightData_def)
  have w4': "wordles (fst (checkGuess player newGame ''2024-01-02'' ''light'')) = [light, ?stored]"
    using checkGuess_order[where e=player and d=newGame and dt="''2024-01-02''" and g="''light''"
        and u="''user_2ab''" and pd=lightData] some p2 f2
    by (simp add: newGame_def lightData_def)
  have w5: "checkGuess sameIdPlayer ?full ''2024-01-01'' ''whack''
     = (?full, Inl (Error ''Maximum guesses reached''))"
    using checkGuess_order[where e=sameIdPlayer and d="?full" and dt="''2024-01-01''"
        and g="''whack''" and u="''user_2ab''" and ?d1.0="?full" and sol="''LIGHT''" and st="?row6"]
      some' lf len5w sf
    by simp
  have w6: "checkGuess sameIdPlayer ?won ''2024-01-01'' ''crane''
     = (?won, Inl (Error ''Game is already over''))"
    using checkGuess_order[where e=sameIdPlayer and d="?won" and dt="''2024-01-01''"
        and g="''crane''" and u="''user_2ab''" and ?d1.0="?won" and sol="''LIGHT''" and st="?row1"]
      some' lo len5c so
    by simp
  have w7: "wordleGameStates (fst (checkGuess sameIdPlayer ?won ''2024-01-01'' ''crane''))
     = wordleGameStates ?won"
    using checkGuess_order[where e=sameIdPlayer and d="?won" and dt="''2024-01-01''"
        and g="''crane''" and d'="fst (checkGuess sameIdPlayer ?won ''2024-01-01'' ''crane'')"
        and err'="Error ''Game is already over''"] w6
    by simp
  show ?thesis
    unfolding full won using w1 w2 w3 w3' w4 w4' w5 w6 w7 by simp
qed

section \<open>Where the handler departs from the rules of the game\<close>

subsection \<open>The pattern built from the guessed character\<close>

text \<open>
  C1. The calculation is to score every guess of five characters by the two passes. A
  guess with \<open>*\<close> in a position that is not correct is not scored: the pattern \<open>*\<close> is no
  regular expression, the constructor throws, and \<open>checkGuess\<close> fails with that error
  where the two passes give five times \<open>absent\<close>.
\<close>

theorem star_guess_not_scored:
  "calculateFeedback ''a*bcd'' ''light'' = Inl (SyntaxError CHR ''*'') \<and>
   checkGuess player newGame ''2024-01-01'' ''a*bcd'' = (newGame, Inl (SyntaxError CHR ''*''))"
  by code_simp

text \<open>
  C6. Every guess of five characters is to get five feedback values. The guess \<open>[ight\<close>
  against \<open>light\<close> agrees in four positions and gets none: the pattern \<open>[\<close> throws.
\<close>

theorem bracket_guess_no_feedback:
  "calculateFeedback ''[ight'' ''light'' = Inl (SyntaxError CHR ''['') \<and>
   length (filter (\<lambda>i. ''[ight'' ! i = ''light'' ! i) [0..<5]) = 4"
  by code_simp

text \<open>
  C10. Only the length of a guess is checked, so a guess of five characters of any kind
  is to be scored and stored. \<open>12345\<close> is; \<open>c++11\<close> is not: the pattern \<open>+\<close> throws and
  nothing is stored.
\<close>

theorem plus_guess_not_stored:
  "checkGuess player newGame ''2024-01-01'' ''c++11'' = (newGame, Inl (SyntaxError CHR ''+'')) \<and>
   checkGuess player newGame ''2024-01-01'' ''12345''
     = (gameOf ''k57a'' [\<lparr>word = ''12345'', feedback = [Absent, Absent, Absent, Absent, Absent]\<rparr>] False,
        Inr \<lparr>res_feedback = [Absent, Absent, Absent, Absent, Absent],
             res_isCorrect = False, res_isGameOver = False\<rparr>)"
  by code_simp

subsection \<open>The game row is read under one user id and written under another\<close>

text \<open>
  \<open>checkGuess\<close> reads the game row of \<open>identity.subject\<close>; \<open>saveGameStateInternal\<close> writes,
  and \<open>getGameState\<close> shows, the row of the \<open>_id\<close> of the current user's record. For the
  player the two differ, so the handler never sees the row it has written.
\<close>

text \<open>
  C2. A submission is never to shorten the stored guesses nor to reopen a game that is
  over. The player's stored game of three guesses holds one guess after the next
  submission; and the game that the player has just won with \<open>light\<close> is stored as not
  over after a further submission.
\<close>

theorem stored_game_overwritten:
  "getGameState player (gameOf ''k57a'' [crane, crane, crane] False) ''2024-01-01''
     = Inr (Some \<lparr>v_guesses = [crane, crane, crane], v_isGameOver = False,
                  v_daysSinceLaunch = Some 928\<rparr>) \<and>
   getGameState player
       (fst (checkGuess player (gameOf ''k57a'' [crane, crane, crane] False) ''2024-01-01'' ''night''))
       ''2024-01-01''
     = Inr (Some \<lparr>v_guesses = [\<lparr>word = ''NIGHT'',
                                 feedback = [Absent, Correct, Correct, Correct, Correct]\<rparr>],
                  v_isGameOver = False, v_daysSinceLaunch = Some 928\<rparr>) \<and>
   map_sum id (map_option v_isGameOver)
       (getGameState player (fst (checkGuess player newGame ''2024-01-01'' ''light'')) ''2024-01-01'')
     = Inr (Some True) \<and>
   map_sum id (map_option v_isGameOver)
       (getGameState player
          (fst (submitAll player newGame ''2024-01-01'' [''light'', ''night''])) ''2024-01-01'')
     = Inr (Some False)"
  by code_simp

text \<open>
  C3. With six guesses stored, a further submission is to fail with "Maximum guesses
  reached" and to leave the stored game alone. The player's stored game of six guesses
  takes a seventh: the call returns feedback, and the stored game is that one guess, not
  over. Seven wrong guesses in a row from a new game are all accepted as well.
\<close>

theorem seventh_guess_accepted:
  "checkGuess player (gameOf ''k57a'' [crane, crane, crane, crane, crane, crane] True)
       ''2024-01-01'' ''night''
     = (gameOf ''k57a'' [\<lparr>word = ''NIGHT'',
                          feedback = [Absent, Correct, Correct, Correct, Correct]\<rparr>] False,
        Inr \<lparr>res_feedback = [Absent, Correct, Correct, Correct, Correct],
             res_isCorrect = False, res_isGameOver = False\<rparr>) \<and>
   map isl (snd (submitAll player newGame ''2024-01-01''
                   [''crane'', ''moist'', ''pound'', ''bulky'', ''fjord'', ''vexed'', ''whack'']))
     = [False, False, False, False, False, False, False] \<and>
   fst (submitAll player newGame ''2024-01-01''
          [''crane'', ''moist'', ''pound'', ''bulky'', ''fjord'', ''vexed'', ''whack''])
     = gameOf ''k57a'' [\<lparr>word = ''WHACK'',
                         feedback = [Absent, Present, Absent, Absent, Absent]\<rparr>] False"
  by code_simp

text \<open>
  C4. Once the stored game is over, a further submission is to fail with "Game is
  already over" and to leave the stored game alone. After the player's winning first
  guess the stored game is over; the next submission is accepted and replaces it.
\<close>

theorem guess_after_win_accepted:
  "fst (checkGuess player newGame ''2024-01-01'' ''light'')
     = gameOf ''k57a'' [\<lparr>word = ''LIGHT'',
                         feedback = [Correct, Correct, Correct, Correct, Correct]\<rparr>] True \<and>
   checkGuess player
       (gameOf ''k57a'' [\<lparr>word = ''LIGHT'',
                          feedback = [Correct, Correct, Correct, Correct, Correct]\<rparr>] True)
       ''2024-01-01'' ''crane''
     = (gameOf ''k57a'' [crane] False,
        Inr \<lparr>res_feedback = [Absent, Absent, Absent, Absent, Absent],
             res_isCorrect = False, res_isGameOver = False\<rparr>)"
  by code_simp

section \<open>What holds of the handler in general\<close>

subsection \<open>The two passes, for guesses of literal patterns\<close>

text \<open>
  Where every character that the second pass scores is a literal pattern (every letter
  and digit is), the calculation returns, and its result is the one the two passes
  describe: \<open>correct\<close> exactly where guess and solution agree; elsewhere \<open>present\<close>
  exactly when the solution contains the letter and its \<open>correct\<close> marks plus the
  \<open>present\<close> marks to its left are fewer than its occurrences in the solution, and
  \<open>absent\<close> otherwise.
\<close>

lemma calculateFeedback_two_pass:
  assumes "length g = 5" and "length s = 5"
    and "\<forall>i<5. g ! i = s ! i \<or> regexp_literal (g ! i)"
  shows "\<exists>f. calculateFeedback g s = Inr f \<and> length f = 5 \<and>
           (\<forall>i<5. (f ! i = Correct \<longleftrightarrow> g ! i = s ! i) \<and>
                  (f ! i = Present \<longleftrightarrow>
                     g ! i \<noteq> s ! i \<and> g ! i \<in> set s \<and>
                     spec_correctCount g f (g ! i) + spec_alreadyPresentCount g f i (g ! i)
                       < spec_solutionCount s (g ! i)) \<and>
                  (f ! i = Absent \<longleftrightarrow>
                     g ! i \<noteq> s ! i \<and>
                     \<not> (g ! i \<in> set s \<and>
                        spec_correctCount g f (g ! i) + spec_alreadyPresentCount g f i (g ! i)
                          < spec_solutionCount s (g ! i))))"
proof -
  have at_s: "\<And>i. i < 5 \<Longrightarrow> at s i = Some (g ! i) \<longleftrightarrow> g ! i = s ! i"
    using assms(2) by (auto simp: at_def)
  have "\<forall>j<5. at s j = Some (g ! j) \<or> \<not> regexp_invalid (g ! j)"
    using assms(3) at_s by (auto simp: regexp_literal_def)
  from calculateFeedback_total[OF assms(1) this]
  obtain f where f: "calculateFeedback g s = Inr f" by blast
  have len: "length f = 5" by (rule calculateFeedback_Inr(1)[OF f assms(1)])
  have "(f ! i = Correct \<longleftrightarrow> g ! i = s ! i) \<and>
        (f ! i = Present \<longleftrightarrow>
           g ! i \<noteq> s ! i \<and> g ! i \<in> set s \<and>
           spec_correctCount g f (g ! i) + spec_alreadyPresentCount g f i (g ! i)
             < spec_solutionCount s (g ! i)) \<and>
        (f ! i = Absent \<longleftrightarrow>
           g ! i \<noteq> s ! i \<and>
           \<not> (g ! i \<in> set s \<and>
              spec_correctCount g f (g ! i) + spec_alreadyPresentCount g f i (g ! i)
                < spec_solutionCount s (g ! i)))" if i: "i < 5" for i
  proof (cases "g ! i = s ! i")
    case True
    then have "f ! i = Correct"
      using calculateFeedback_correct_iff[OF f assms(1) i] at_s[OF i] by simp
    then show ?thesis using True by simp
  next
    case False
    then have ns: "at s i \<noteq> Some (g ! i)" using at_s[OF i] by simp
    have nc: "f ! i \<noteq> Correct"
      using calculateFeedback_correct_iff[OF f assms(1) i] ns by simp
    have lit: "regexp_literal (g ! i)" using assms(3) i False by auto
    from calculateFeedback_present_iff[OF f assms(1) i ns]
    show ?thesis using False nc by (auto simp: match_length_literal[OF lit] spec_solutionCount_def)
  qed
  then show ?thesis using f len by blast
qed

subsection \<open>The game rows\<close>

lemma find_patch_same:
  "(\<And>r. P r \<Longrightarrow> P (f r)) \<Longrightarrow> find P (patch P f rows) = map_option f (find P rows)"
  by (induction rows) auto

lemma find_patch_other:
  "(\<And>r. Q (f r) = Q r) \<Longrightarrow> (\<And>r. P r \<Longrightarrow> \<not> Q r) \<Longrightarrow> find Q (patch P f rows) = find Q rows"
  by (induction rows) auto

lemma find_append_one:
  "find Q (rows @ [r]) =
     (case find Q rows of Some x \<Rightarrow> Some x | None \<Rightarrow> if Q r then Some r else None)"
  by (induction rows) auto

text \<open>
  A save writes the row of the current user's \<open>_id\<close> and the date, and no other row.
\<close>

lemma saveGameStateInternal_stored:
  assumes "saveGameStateInternal e d dt gs over = Inr d2"
  shows "\<exists>uid st'. currentUser e = Some uid \<and>
           getGameStateInternal d2 uid dt = Some st' \<and> guesses st' = gs \<and> isGameOver st' = over"
proof -
  from assms obtain uid where uid: "currentUser e = Some uid"
    by (auto simp: saveGameStateInternal_def split: option.splits)
  let ?P = "\<lambda>r. userId r = uid \<and> date r = dt"
  let ?f = "\<lambda>r. r\<lparr>guesses := gs, isGameOver := over\<rparr>"
  show ?thesis
  proof (cases "find ?P (wordleGameStates d)")
    case None
    then have "d2 = d\<lparr>wordleGameStates := wordleGameStates d @
                 [\<lparr>userId = uid, date = dt, guesses = gs, isGameOver = over\<rparr>]\<rparr>"
      using assms uid by (simp add: saveGameStateInternal_def)
    then show ?thesis using uid None
      by (simp add: getGameStateInternal_def find_append_one)
  next
    case (Some existing)
    then have d2: "d2 = d\<lparr>wordleGameStates := patch ?P ?f (wordleGameStates d)\<rparr>"
      using assms uid by (simp add: saveGameStateInternal_def)
    have "find ?P (patch ?P ?f (wordleGameStates d)) = map_option ?f (find ?P (wordleGameStates d))"
      by (rule find_patch_same) simp
    then show ?thesis using uid Some d2 by (simp add: getGameStateInternal_def)
  qed
qed

lemma saveGameStateInternal_other:
  assumes "saveGameStateInternal e d dt gs over = Inr d2"
    and "currentUser e \<noteq> Some u' \<or> dt' \<noteq> dt"
  shows "getGameStateInternal d2 u' dt' = getGameStateInternal d u' dt'"
proof -
  from assms obtain uid where uid: "currentUser e = Some uid"
    by (auto simp: saveGameStateInternal_def split: option.splits)
  let ?P = "\<lambda>r. userId r = uid \<and> date r = dt"
  let ?Q = "\<lambda>r. userId r = u' \<and> date r = dt'"
  let ?f = "\<lambda>r. r\<lparr>guesses := gs, isGameOver := over\<rparr>"
  have diff: "u' \<noteq> uid \<or> dt' \<noteq> dt" using assms(2) uid by auto
  show ?thesis
  proof (cases "find ?P (wordleGameStates d)")
    case None
    then have "d2 = d\<lparr>wordleGameStates := wordleGameStates d @
                 [\<lparr>userId = uid, date = dt, guesses = gs, isGameOver = over\<rparr>]\<rparr>"
      using assms uid by (simp add: saveGameStateInternal_def)
    then show ?thesis using diff
      by (auto simp: getGameStateInternal_def find_append_one split: option.splits)
  next
    case (Some existing)
    then have d2: "d2 = d\<lparr>wordleGameStates := patch ?P ?f (wordleGameStates d)\<rparr>"
      using assms uid by (simp add: saveGameStateInternal_def)
    have "find ?Q (patch ?P ?f (wordleGameStates d)) = find ?Q (wordleGameStates d)"
      by (rule find_patch_other) (use diff in auto)
    then show ?thesis using d2 by (simp add: getGameStateInternal_def)
  qed
qed

lemma loadPuzzle_getGameStateInternal:
  "loadPuzzle e d dt = Inr (d1, sol) \<Longrightarrow> getGameStateInternal d1 u' dt' = getGameStateInternal d u' dt'"
  by (simp add: getGameStateInternal_def loadPuzzle_gameStates)

text \<open>
  What an accepted call has gone through.
\<close>

lemma checkGuess_accepted:
  assumes "checkGuess e d dt g = (d', Inr res)"
  shows "\<exists>u d1 sol existing.
           identity e = Some u \<and> loadPuzzle e d dt = Inr (d1, sol) \<and>
           length (toLowerCase e g) = 5 \<and>
           (getGameStateInternal d u dt = None \<and> existing = [] \<or>
            (\<exists>st. getGameStateInternal d u dt = Some st \<and> length (guesses st) < 6 \<and>
                  \<not> isGameOver st \<and> existing = guesses st)) \<and>
           calculateFeedback (toLowerCase e g) (toLowerCase e sol) = Inr (res_feedback res) \<and>
           res_isCorrect res = (toLowerCase e g = toLowerCase e sol) \<and>
           res_isGameOver res = (res_isCorrect res \<or> 6 \<le> length existing + 1) \<and>
           saveGameStateInternal e d1 dt
             (existing @ [\<lparr>word = toUpperCase e (toLowerCase e g), feedback = res_feedback res\<rparr>])
             (res_isGameOver res) = Inr d'"
proof -
  from assms obtain u where u: "identity e = Some u"
    by (cases "identity e") (auto simp: checkGuess_def)
  from assms u obtain d1 sol where l: "loadPuzzle e d dt = Inr (d1, sol)"
    by (cases "loadPuzzle e d dt") (auto simp: checkGuess_def)
  note rd = loadPuzzle_getGameStateInternal[OF l, of u dt]
  show ?thesis
  proof (cases "getGameStateInternal d u dt")
    case None
    then show ?thesis using assms u l rd
      by (auto simp: checkGuess_def Let_def split: if_splits sum.splits)
  next
    case (Some st)
    then show ?thesis using assms u l rd
      by (auto simp: checkGuess_def Let_def split: if_splits sum.splits)
  qed
qed

text \<open>
  An accepted call stores, under the current user's \<open>_id\<close>, the guesses it read under
  the identity's subject followed by the new guess, and the game-over flag it returns.
\<close>

lemma checkGuess_stored:
  assumes "checkGuess e d dt g = (d', Inr res)"
  shows "\<exists>u uid st'.
           identity e = Some u \<and> currentUser e = Some uid \<and>
           getGameStateInternal d' uid dt = Some st' \<and>
           guesses st' =
             (case getGameStateInternal d u dt of None \<Rightarrow> [] | Some st \<Rightarrow> guesses st)
               @ [\<lparr>word = toUpperCase e (toLowerCase e g), feedback = res_feedback res\<rparr>] \<and>
           isGameOver st' = res_isGameOver res"
proof -
  from checkGuess_accepted[OF assms] obtain u d1 sol existing where
    u: "identity e = Some u"
    and ex: "getGameStateInternal d u dt = None \<and> existing = [] \<or>
            (\<exists>st. getGameStateInternal d u dt = Some st \<and> length (guesses st) < 6 \<and>
                  \<not> isGameOver st \<and> existing = guesses st)"
    and sv: "saveGameStateInternal e d1 dt
             (existing @ [\<lparr>word = toUpperCase e (toLowerCase e g), feedback = res_feedback res\<rparr>])
             (res_isGameOver res) = Inr d'"
    by blast
  from saveGameStateInternal_stored[OF sv] obtain uid st' where
    "currentUser e = Some uid" "getGameStateInternal d' uid dt = Some st'"
    "guesses st' = existing @ [\<lparr>word = toUpperCase e (toLowerCase e g), feedback = res_feedback res\<rparr>]"
    "isGameOver st' = res_isGameOver res"
    by blast
  moreover have "existing = (case getGameStateInternal d u dt of None \<Rightarrow> [] | Some st \<Rightarrow> guesses st)"
    using ex by auto
  ultimately show ?thesis using u by auto
qed

text \<open>
  No call changes a game row of another user id or another date.
\<close>

lemma checkGuess_other_rows:
  assumes "checkGuess e d dt g = (d', r)" and "currentUser e \<noteq> Some u' \<or> dt' \<noteq> dt"
  shows "getGameStateInternal d' u' dt' = getGameStateInternal d u' dt'"
proof (cases r)
  case (Inl err)
  then show ?thesis using checkGuess_error_gameStates[of e d dt g d' err] assms(1)
    by (simp add: getGameStateInternal_def)
next
  case (Inr res)
  from checkGuess_accepted[OF assms(1)[unfolded Inr]] obtain d1 sol gs over where
    l: "loadPuzzle e d dt = Inr (d1, sol)" and sv: "saveGameStateInternal e d1 dt gs over = Inr d'"
    by blast
  show ?thesis
    using saveGameStateInternal_other[OF sv assms(2)] loadPuzzle_getGameStateInternal[OF l]
    by simp
qed

text \<open>
  Where the current user's \<open>_id\<close> is the identity's subject, the handler reads the row it
  writes: then no call shortens the stored guesses or reopens a game that is over, and a
  stored game with six guesses or over is left as it is.
\<close>

lemma checkGuess_same_key_monotonic:
  assumes "identity e = Some u" and "currentUser e = Some u"
    and "checkGuess e d dt g = (d', r)"
    and "getGameStateInternal d u dt = Some st"
  shows "\<exists>st'. getGameStateInternal d' u dt = Some st' \<and>
               length (guesses st) \<le> length (guesses st') \<and>
               (isGameOver st \<longrightarrow> isGameOver st') \<and>
               (6 \<le> length (guesses st) \<or> isGameOver st \<longrightarrow> st' = st)"
proof (cases r)
  case (Inl err)
  then have "getGameStateInternal d' u dt = getGameStateInternal d u dt"
    using checkGuess_error_gameStates[of e d dt g d' err] assms(3)
    by (simp add: getGameStateInternal_def)
  then show ?thesis using assms(4) by simp
next
  case (Inr res)
  note acc = assms(3)[unfolded Inr]
  from checkGuess_accepted[OF acc] assms(1,4)
  have ok: "length (guesses st) < 6" "\<not> isGameOver st" by auto
  from checkGuess_stored[OF acc] assms(1,2,4) obtain st' where
    "getGameStateInternal d' u dt = Some st'"
    "guesses st' = guesses st @ [\<lparr>word = toUpperCase e (toLowerCase e g), feedback = res_feedback res\<rparr>]"
    by auto
  then show ?thesis using ok by auto
qed

lemma saveGameStateInternal_total:
  "currentUser e = Some uid \<Longrightarrow> \<exists>d2. saveGameStateInternal e d dt gs over = Inr d2"
  by (cases "find (\<lambda>r. userId r = uid \<and> date r = dt) (wordleGameStates d)")
     (simp_all add: saveGameStateInternal_def)

subsection \<open>No check of the content\<close>

text \<open>
  A guess of five characters, whatever they are, is scored and stored once the puzzle
  is there, the row read permits it, the current user resolves, and no scored character
  is one of the seven patterns that throw.
\<close>

lemma checkGuess_any_content:
  assumes "identity e = Some u" and "loadPuzzle e d dt = Inr (d1, sol)"
    and "length (toLowerCase e g) = 5"
    and "getGameStateInternal d u dt = None \<or>
         (\<exists>st. getGameStateInternal d u dt = Some st \<and> length (guesses st) < 6 \<and> \<not> isGameOver st)"
    and "currentUser e = Some uid"
    and "\<forall>c \<in> set (toLowerCase e g). \<not> regexp_invalid c"
  shows "\<exists>d' res st'. checkGuess e d dt g = (d', Inr res) \<and> length (res_feedback res) = 5 \<and>
           getGameStateInternal d' uid dt = Some st' \<and>
           guesses st' =
             (case getGameStateInternal d u dt of None \<Rightarrow> [] | Some st \<Rightarrow> guesses st)
               @ [\<lparr>word = toUpperCase e (toLowerCase e g), feedback = res_feedback res\<rparr>]"
proof -
  let ?g = "toLowerCase e g" and ?s = "toLowerCase e sol"
  let ?existing = "case getGameStateInternal d u dt of None \<Rightarrow> [] | Some st \<Rightarrow> guesses st"
  have "\<forall>j<5. at ?s j = Some (?g ! j) \<or> \<not> regexp_invalid (?g ! j)"
    using assms(3,6) by auto
  from calculateFeedback_total[OF assms(3) this] obtain fb where
    fb: "calculateFeedback ?g ?s = Inr fb" by blast
  have len: "length fb = 5" by (rule calculateFeedback_Inr(1)[OF fb assms(3)])
  let ?gs = "?existing @ [\<lparr>word = toUpperCase e ?g, feedback = fb\<rparr>]"
  let ?over = "?g = ?s \<or> 6 \<le> length ?existing + 1"
  obtain d2 where sv: "saveGameStateInternal e d1 dt ?gs ?over = Inr d2"
    using saveGameStateInternal_total[OF assms(5)] by blast
  note rd = loadPuzzle_getGameStateInternal[OF assms(2), of u dt]
  have "checkGuess e d dt g =
          (d2, Inr \<lparr>res_feedback = fb, res_isCorrect = (?g = ?s), res_isGameOver = ?over\<rparr>)"
    by (rule checkGuess_accepts[OF assms(1,2,3) _ fb sv]) (use assms(4) rd in auto)
  moreover from saveGameStateInternal_stored[OF sv] assms(5)
  obtain st' where "getGameStateInternal d2 uid dt = Some st'" "guesses st' = ?gs" by auto
  ultimately show ?thesis using len by auto
qed

end
